theory Spec2Isabelle
  imports Complex_Main "HOL-Library.AList" "HOL-Library.Sublist"
begin

section \<open>Python strings\<close>

text \<open>
  A Python \<open>str\<close> is a sequence of Unicode code points, and \<open>len\<close> counts code points.
  The programs work on Chinese text, so a string is modelled as the list of its code
  points (natural numbers), not as a list of bytes.
\<close>

type_synonym ustring = "nat list"

text \<open>
  \<open>str.strip()\<close> and the regular expression class \<open>\s\<close> (on \<open>str\<close> patterns) both use
  CPython's \<open>Py_UNICODE_ISSPACE\<close>: exactly the following code points.
\<close>

definition isspace :: "nat \<Rightarrow> bool" where
  "isspace c =
     ((9 \<le> c \<and> c \<le> 13) \<or> (28 \<le> c \<and> c \<le> 32) \<or> c = 133 \<or> c = 160 \<or> c = 5760 \<or>
      (8192 \<le> c \<and> c \<le> 8202) \<or> c = 8232 \<or> c = 8233 \<or> c = 8239 \<or> c = 8287 \<or> c = 12288)"

text \<open>\<open>s.strip()\<close>: whitespace is removed at both ends.\<close>

definition strip :: "ustring \<Rightarrow> ustring" where
  "strip s = rev (dropWhile isspace (rev (dropWhile isspace s)))"

text \<open>\<open>s.split('\n')\<close>: the fields between line feeds (code point 10); never an empty list.\<close>

fun split_nl :: "ustring \<Rightarrow> ustring list" where
  "split_nl [] = [[]]"
| "split_nl (c # cs) =
     (if c = 10 then [] # split_nl cs
      else (case split_nl cs of l # ls \<Rightarrow> (c # l) # ls | [] \<Rightarrow> [[c]]))"

text \<open>\<open>' '.join(xs)\<close>: the strings of \<open>xs\<close> with one space (code point 32) between neighbours.\<close>

fun join_sp :: "ustring list \<Rightarrow> ustring" where
  "join_sp [] = []"
| "join_sp [x] = x"
| "join_sp (x # y # ys) = x @ [32] @ join_sp (y # ys)"

text \<open>\<open>'\n\n'.join(xs)\<close>.\<close>

fun join_blank :: "ustring list \<Rightarrow> ustring" where
  "join_blank [] = []"
| "join_blank [x] = x"
| "join_blank (x # y # ys) = x @ [10, 10] @ join_blank (y # ys)"

text \<open>\<open>needle in hay\<close> on strings: \<open>needle\<close> occurs as a contiguous substring.\<close>

fun startswith :: "ustring \<Rightarrow> ustring \<Rightarrow> bool" where
  "startswith [] hay = True"
| "startswith (n # ns) [] = False"
| "startswith (n # ns) (h # hs) = (n = h \<and> startswith ns hs)"

fun contains :: "ustring \<Rightarrow> ustring \<Rightarrow> bool" where
  "contains needle [] = (needle = [])"
| "contains needle (h # hs) = (startswith needle (h # hs) \<or> contains needle hs)"

text \<open>
  \<open>re.sub(r'\s+', ' ', s)\<close>: scanning from the left, every maximal run of whitespace is
  replaced by one space; all other characters are kept.
\<close>

function sub_ws :: "ustring \<Rightarrow> ustring" where
  "sub_ws [] = []"
| "sub_ws (c # cs) =
     (if isspace c then 32 # sub_ws (dropWhile isspace cs) else c # sub_ws cs)"
  by pat_completeness auto
termination
  by (relation "measure length") (auto simp: length_dropWhile_le less_Suc_eq_le)

section \<open>The normalizer\<close>

text \<open>
  Both extractors clean a page's retained lines with
  \<^verbatim>\<open>page_text = ' '.join(filtered_lines)\<close> and
  \<^verbatim>\<open>page_text = re.sub(r'\s+', ' ', page_text).strip()\<close>.
\<close>

definition normalize_text :: "ustring \<Rightarrow> ustring" where
  "normalize_text s = strip (sub_ws s)"

definition normalizer :: "ustring list \<Rightarrow> ustring" where
  "normalizer filtered_lines = normalize_text (join_sp filtered_lines)"

section \<open>Pages and documents (the pdfplumber interface)\<close>

text \<open>
  Exceptions are values. \<open>PdfError\<close> stands for any exception raised inside the PDF
  library; \<open>KeyError k\<close> is Python's exception for a dictionary read at a missing key.
\<close>

datatype error = PdfError | KeyError ustring

text \<open>
  One match returned by \<open>page.search\<close>; the programs read only its \<open>'top'\<close> entry.
  Vertical positions and the page height are Python floats. No law of arithmetic is used
  on them: they live in an arbitrary type with a comparison and a multiplication.
\<close>

record 'a bbox =
  top_offset :: 'a

text \<open>
  A page answers three queries: \<open>page.height\<close>, \<open>page.extract_text()\<close> (an exception, or a
  falsy result \<open>None\<close>/\<open>''\<close>, or the text) and \<open>page.search(line)\<close> (an exception, or the
  list of matches, empty when the text is not found).
\<close>

record 'a page =
  height :: 'a
  page_extract_text :: "error + ustring option"
  search :: "ustring \<Rightarrow> error + 'a bbox list"

text \<open>What lies at \<open>pdf_path\<close>: nothing, something that is no file, a file that
  \<open>pdfplumber.open\<close> rejects, or a PDF with its pages.\<close>

datatype 'a pdf_file = Missing | NotAFile | Unreadable | Pdf "'a page list"

text \<open>\<open>validate_pdf\<close> (the same method in both classes).\<close>

definition validate_pdf :: "'a pdf_file \<Rightarrow> bool" where
  "validate_pdf pdf_path =
     (case pdf_path of
        Missing \<Rightarrow> False
      | NotAFile \<Rightarrow> False
      | Unreadable \<Rightarrow> False
      | Pdf pages \<Rightarrow> (if length pages = 0 then False else True))"

section \<open>CustomPDFExtractor: sections by title\<close>

subsection \<open>\<open>detect_title\<close>\<close>

text \<open>The author marker of the source, a string of the three code points U+4F5C U+8005
  U+540D ("author name" in Chinese).\<close>

definition author_marker :: ustring where
  "author_marker = [20316, 32773, 21517]"

text \<open>The loop \<^verbatim>\<open>for i in range(1, len(lines))\<close> of \<open>detect_title\<close>, entered at index \<open>i\<close>.\<close>

function scan_author :: "nat \<Rightarrow> ustring list \<Rightarrow> (ustring \<times> ustring) option" where
  "scan_author i lines =
     (if i < length lines then
        (let author_line = lines ! i in
         if 4 \<le> length author_line \<and> contains author_marker author_line
         then Some (strip (join_sp (take i lines)), author_line)
         else scan_author (Suc i) lines)
      else None)"
  by pat_completeness auto
termination
  by (relation "measure (\<lambda>(i, lines). length lines - i)") auto

declare scan_author.simps [simp del]

text \<open>The body of \<open>detect_title\<close> once \<open>page.extract_text()\<close> has returned \<open>text\<close>.
  The result \<open>(title, author_info)\<close> is the dictionary with these two keys.\<close>

definition detect_title_text :: "ustring \<Rightarrow> (ustring \<times> ustring) option" where
  "detect_title_text text =
     (if text = [] then None
      else
        (let lines = take 4 (split_nl text) in
         if length lines < 2 then None
         else
           (let lines = map strip (filter (\<lambda>line. strip line \<noteq> []) lines) in
            if length lines < 2 then None
            else scan_author 1 lines)))"

text \<open>\<open>detect_title\<close>: every exception is caught and gives \<open>None\<close>.\<close>

definition detect_title :: "'a page \<Rightarrow> (ustring \<times> ustring) option" where
  "detect_title page =
     (case page_extract_text page of
        Inl e \<Rightarrow> None
      | Inr None \<Rightarrow> None
      | Inr (Some text) \<Rightarrow> detect_title_text text)"

subsection \<open>\<open>extract_text\<close>\<close>

text \<open>An entry of \<open>self.sections\<close>.\<close>

record section_rec =
  title :: ustring
  author_info :: ustring
  content :: "ustring list"

text \<open>
  \<open>self.sections\<close> is a Python dictionary, which keeps its keys in insertion order: an
  association list with \<open>map_of\<close> for reading and \<open>AList.update\<close> for \<open>d[k] = v\<close> (a
  present key keeps its place, a new key goes to the end).
\<close>

type_synonym registry = "(ustring \<times> section_rec) list"

text \<open>\<open>__init__\<close> sets \<open>self.sections = {}\<close>.\<close>

definition init_sections :: registry where
  "init_sections = []"

text \<open>The default title of the source, a string of the five code points U+672A U+5206
  U+7C7B U+5185 U+5BB9 ("unclassified content" in Chinese).\<close>

definition unclassified :: ustring where
  "unclassified = [26410, 20998, 31867, 20869, 23481]"

text \<open>The footer keyword \<open>'xxx'\<close>.\<close>

definition footer_keyword :: ustring where
  "footer_keyword = [120, 120, 120]"

text \<open>The state of the page loop: the local \<open>current_title\<close> and \<open>self.sections\<close>.\<close>

record loop_state =
  current_title :: ustring
  sections :: registry

text \<open>Lines 94 to 103: a detected title becomes current and is registered if new.\<close>

definition register_title :: "(ustring \<times> ustring) option \<Rightarrow> loop_state \<Rightarrow> loop_state" where
  "register_title title_info st =
     (case title_info of
        None \<Rightarrow> st
      | Some (t, a) \<Rightarrow>
          \<lparr>current_title = t,
           sections =
             (if map_of (sections st) t = None
              then AList.update t \<lparr>title = t, author_info = a, content = []\<rparr> (sections st)
              else sections st)\<rparr>)"

text \<open>The loop over the lines of a page that drops the lines with the footer keyword.\<close>

fun keyword_filter_loop :: "ustring list \<Rightarrow> ustring list \<Rightarrow> ustring list" where
  "keyword_filter_loop [] filtered_lines = filtered_lines"
| "keyword_filter_loop (line # lines) filtered_lines =
     keyword_filter_loop lines
       (if \<not> contains footer_keyword line then filtered_lines @ [line] else filtered_lines)"

definition keyword_filter :: "ustring list \<Rightarrow> ustring list" where
  "keyword_filter lines = keyword_filter_loop lines []"

text \<open>
  Lines 111 to 131 of the \<open>try\<close> block: an exception, or nothing to file (\<open>continue\<close> on a
  falsy text, or no retained line), or the page's normalized text.
\<close>

definition page_text :: "'a page \<Rightarrow> error + ustring option" where
  "page_text page =
     (case page_extract_text page of
        Inl e \<Rightarrow> Inl e
      | Inr None \<Rightarrow> Inr None
      | Inr (Some full_text) \<Rightarrow>
          (if full_text = [] then Inr None
           else
             (let filtered_lines = keyword_filter (split_nl full_text) in
              if filtered_lines \<noteq> [] then Inr (Some (normalizer filtered_lines))
              else Inr None)))"

text \<open>Line 132: \<^verbatim>\<open>self.sections[current_title]['content'].append(page_text)\<close>.\<close>

definition append_content :: "ustring \<Rightarrow> loop_state \<Rightarrow> error + loop_state" where
  "append_content text st =
     (case map_of (sections st) (current_title st) of
        None \<Rightarrow> Inl (KeyError (current_title st))
      | Some s \<Rightarrow>
          Inr (st\<lparr>sections :=
                 AList.update (current_title st) (s\<lparr>content := content s @ [text]\<rparr>)
                   (sections st)\<rparr>))"

text \<open>The \<open>try\<close> block of the page loop.\<close>

definition page_body :: "'a page \<Rightarrow> loop_state \<Rightarrow> error + loop_state" where
  "page_body page st =
     (case page_text page of
        Inl e \<Rightarrow> Inl e
      | Inr None \<Rightarrow> Inr st
      | Inr (Some text) \<Rightarrow> append_content text st)"

text \<open>One iteration: the \<open>except\<close> clause logs and continues with the state it found.\<close>

definition process_page :: "'a page \<Rightarrow> loop_state \<Rightarrow> loop_state" where
  "process_page page st =
     (let st1 = register_title (detect_title page) st in
      case page_body page st1 of Inl e \<Rightarrow> st1 | Inr st2 \<Rightarrow> st2)"

fun extract_loop :: "'a page list \<Rightarrow> loop_state \<Rightarrow> loop_state" where
  "extract_loop [] st = st"
| "extract_loop (page # pages) st = extract_loop pages (process_page page st)"

definition init_state :: loop_state where
  "init_state = \<lparr>current_title = unclassified, sections = init_sections\<rparr>"

text \<open>
  \<open>CustomPDFExtractor.extract_text\<close> on a fresh extractor: the returned flag, and
  \<open>self.sections\<close> as the call leaves it. A failure of the second \<open>pdfplumber.open\<close> is the
  outer \<open>except\<close>.
\<close>

definition custom_extract_text :: "'a pdf_file \<Rightarrow> bool \<times> registry" where
  "custom_extract_text pdf_path =
     (if \<not> validate_pdf pdf_path then (False, init_sections)
      else
        (case pdf_path of
           Pdf pages \<Rightarrow>
             (let st = extract_loop pages init_state
              in (0 < length (sections st), sections st))
         | _ \<Rightarrow> (False, init_sections)))"

subsection \<open>\<open>save_to_files\<close>\<close>

text \<open>\<^verbatim>\<open>re.sub(r'[<>:"/\\|?*]', '_', title)\<close>.\<close>

definition safe_title :: "ustring \<Rightarrow> ustring" where
  "safe_title t = map (\<lambda>c. if c \<in> set [60, 62, 58, 34, 47, 92, 124, 63, 42] then 95 else c) t"

text \<open>\<open>os.path.join\<close> with two arguments (POSIX).\<close>

definition path_join :: "ustring \<Rightarrow> ustring \<Rightarrow> ustring" where
  "path_join a b =
     (if startswith [47] b then b
      else if a = [] \<or> last a = 47 then a @ b
      else a @ [47] @ b)"

text \<open>What is written to the file of a section.\<close>

definition file_body :: "section_rec \<Rightarrow> ustring" where
  "file_body section_data =
     title section_data @ [10] @ author_info section_data @ [10, 10] @
     join_blank (content section_data)"

text \<open>
  The loop over \<open>self.sections.items()\<close>. \<open>can_write path\<close> tells whether opening and
  writing the file succeeds; \<open>written\<close> collects the files written so far, in order, as
  pairs of path and contents. An exception ends the loop with \<open>False\<close>.
\<close>

fun save_loop ::
  "(ustring \<Rightarrow> bool) \<Rightarrow> ustring \<Rightarrow> registry \<Rightarrow> (ustring \<times> ustring) list \<Rightarrow>
   bool \<times> (ustring \<times> ustring) list" where
  "save_loop can_write output_dir [] written = (True, written)"
| "save_loop can_write output_dir ((t, section_data) # rest) written =
     (if content section_data = [] then save_loop can_write output_dir rest written
      else
        (let file_path = path_join output_dir (safe_title t @ [46, 116, 120, 116]) in
         if can_write file_path
         then save_loop can_write output_dir rest
                (written @ [(file_path, file_body section_data)])
         else (False, written)))"

text \<open>\<open>save_to_files\<close>; \<open>can_mkdir\<close> tells whether the output directory exists or can be
  created.\<close>

definition save_to_files ::
  "bool \<Rightarrow> (ustring \<Rightarrow> bool) \<Rightarrow> ustring \<Rightarrow> registry \<Rightarrow> bool \<times> (ustring \<times> ustring) list" where
  "save_to_files can_mkdir can_write output_dir secs =
     (if can_mkdir then save_loop can_write output_dir secs [] else (False, []))"

section \<open>PDFExtractor: header and footer bands\<close>

text \<open>The attributes \<open>header_threshold\<close> and \<open>footer_threshold\<close> of the extractor.\<close>

record 'a thresholds =
  header_threshold :: 'a
  footer_threshold :: 'a

text \<open>The loop over the lines of a page (lines 71 to 78); an exception of \<open>page.search\<close>
  leaves the loop.\<close>

fun positional_filter_loop ::
  "('a::ord) page \<Rightarrow> 'a \<Rightarrow> 'a \<Rightarrow> ustring list \<Rightarrow> ustring list \<Rightarrow> error + ustring list" where
  "positional_filter_loop page header_height footer_height [] filtered_lines =
     Inr filtered_lines"
| "positional_filter_loop page header_height footer_height (line # lines) filtered_lines =
     (case search page line of
        Inl e \<Rightarrow> Inl e
      | Inr [] \<Rightarrow> positional_filter_loop page header_height footer_height lines filtered_lines
      | Inr (b # bs) \<Rightarrow>
          (let line_top = top_offset b in
           if header_height < line_top \<and> line_top < footer_height
           then positional_filter_loop page header_height footer_height lines
                  (filtered_lines @ [line])
           else positional_filter_loop page header_height footer_height lines
                  filtered_lines))"

text \<open>The filter with the band computed as in lines 55 to 57.\<close>

definition positional_filter ::
  "('a::{ord,times}) thresholds \<Rightarrow> 'a page \<Rightarrow> ustring list \<Rightarrow> error + ustring list" where
  "positional_filter self page lines =
     (let header_height = height page * header_threshold self;
          footer_height = height page * footer_threshold self
      in positional_filter_loop page header_height footer_height lines [])"

text \<open>The \<open>try\<close> block of the page loop of \<open>PDFExtractor.extract_text\<close>.\<close>

definition pdf_page_text ::
  "('a::{ord,times}) thresholds \<Rightarrow> 'a page \<Rightarrow> error + ustring option" where
  "pdf_page_text self page =
     (case page_extract_text page of
        Inl e \<Rightarrow> Inl e
      | Inr None \<Rightarrow> Inr None
      | Inr (Some full_text) \<Rightarrow>
          (if full_text = [] then Inr None
           else
             (case positional_filter self page (split_nl full_text) of
                Inl e \<Rightarrow> Inl e
              | Inr filtered_lines \<Rightarrow>
                  (if filtered_lines \<noteq> [] then Inr (Some (normalizer filtered_lines))
                   else Inr None))))"

fun pdf_extract_loop ::
  "('a::{ord,times}) thresholds \<Rightarrow> 'a page list \<Rightarrow> ustring list \<Rightarrow> ustring list" where
  "pdf_extract_loop self [] extracted_text = extracted_text"
| "pdf_extract_loop self (page # pages) extracted_text =
     pdf_extract_loop self pages
       (case pdf_page_text self page of
          Inl e \<Rightarrow> extracted_text
        | Inr None \<Rightarrow> extracted_text
        | Inr (Some text) \<Rightarrow> extracted_text @ [text])"

text \<open>\<open>PDFExtractor.extract_text\<close>.\<close>

definition pdf_extract_text ::
  "('a::{ord,times}) thresholds \<Rightarrow> 'a pdf_file \<Rightarrow> ustring option" where
  "pdf_extract_text self pdf_path =
     (if \<not> validate_pdf pdf_path then None
      else
        (case pdf_path of
           Pdf pages \<Rightarrow>
             (let extracted_text = pdf_extract_loop self pages [] in
              if extracted_text = [] then None else Some (join_blank extracted_text))
         | _ \<Rightarrow> None))"

section \<open>Notions used in the statements\<close>

text \<open>A string in which every whitespace character is a space and no two whitespace
  characters are neighbours: what \<open>sub_ws\<close> produces.\<close>

definition ws_ok :: "ustring \<Rightarrow> bool" where
  "ws_ok r =
     ((\<forall>c\<in>set r. isspace c \<longrightarrow> c = 32) \<and>
      successively (\<lambda>a b. \<not> (isspace a \<and> isspace b)) r)"

text \<open>\<open>needle\<close> occurs somewhere in \<open>hay\<close>.\<close>

definition occurs_in :: "ustring \<Rightarrow> ustring \<Rightarrow> bool" where
  "occurs_in needle hay = (\<exists>before after. hay = before @ needle @ after)"

text \<open>The lines the title detector looks at: the text split into lines, at most the first
  four taken, each stripped, the empty ones dropped.\<close>

definition candidate_lines :: "ustring \<Rightarrow> ustring list" where
  "candidate_lines text = filter (\<lambda>l. l \<noteq> []) (map strip (take 4 (split_nl text)))"

text \<open>An author line: at least four characters, and the author marker occurs in it.\<close>

definition author_line :: "ustring \<Rightarrow> bool" where
  "author_line l = (4 \<le> length l \<and> occurs_in author_marker l)"

text \<open>A line whose position lookup succeeds with a first match strictly inside the band.\<close>

definition retained_line :: "('a::ord) page \<Rightarrow> 'a \<Rightarrow> 'a \<Rightarrow> ustring \<Rightarrow> bool" where
  "retained_line page header_height footer_height line =
     (\<exists>b bs. search page line = Inr (b # bs) \<and>
             header_height < top_offset b \<and> top_offset b < footer_height)"

text \<open>The page-text a page has to file: none when its processing raises or skips.\<close>

definition contribution :: "'a page \<Rightarrow> ustring list" where
  "contribution page = (case page_text page of Inr (Some text) \<Rightarrow> [text] | _ \<Rightarrow> [])"

text \<open>The title that is current after the title detection of a page.\<close>

definition next_title :: "ustring \<Rightarrow> 'a page \<Rightarrow> ustring" where
  "next_title cur page = (case detect_title page of Some (t, a) \<Rightarrow> t | None \<Rightarrow> cur)"

text \<open>The page-texts, in page order, of the pages whose current title is \<open>t\<close>, when the
  title current before the first page is \<open>cur\<close>.\<close>

fun routed :: "ustring \<Rightarrow> ustring \<Rightarrow> 'a page list \<Rightarrow> ustring list" where
  "routed t cur [] = []"
| "routed t cur (page # pages) =
     (if next_title cur page = t then contribution page else []) @
     routed t (next_title cur page) pages"

text \<open>The title detector finds the title \<open>t\<close> on the page.\<close>

definition detects :: "ustring \<Rightarrow> 'a page \<Rightarrow> bool" where
  "detects t page = (\<exists>a. detect_title page = Some (t, a))"

subsection \<open>Example pages and documents\<close>

text \<open>A page of height 100 with the given text, on which no search finds anything.\<close>

definition text_page :: "ustring \<Rightarrow> real page" where
  "text_page text =
     \<lparr>height = 100, page_extract_text = Inr (Some text), search = (\<lambda>line. Inr [])\<rparr>"

text \<open>A page whose text extraction raises.\<close>

definition broken_page :: "real page" where
  "broken_page =
     \<lparr>height = 100, page_extract_text = Inl PdfError, search = (\<lambda>line. Inl PdfError)\<rparr>"

text \<open>The text \<open>hello\<close>.\<close>

definition hello :: ustring where
  "hello = [104, 101, 108, 108, 111]"

text \<open>The two-line headings \<open>T\<close>, author marker followed by \<open>a\<close> (or by \<open>b\<close>).\<close>

definition heading_a :: ustring where
  "heading_a = [84, 10, 20316, 32773, 21517, 97]"

definition heading_b :: ustring where
  "heading_b = [84, 10, 20316, 32773, 21517, 98]"

text \<open>A heading of which both lines carry the footer keyword: \<open>Txxx\<close>, then the author
  marker followed by \<open>xxx\<close>.\<close>

definition heading_x :: ustring where
  "heading_x = [84, 120, 120, 120, 10, 20316, 32773, 21517, 120, 120, 120]"

text \<open>A heading page followed by a page whose text is one space.\<close>

definition blank_doc :: "real pdf_file" where
  "blank_doc = Pdf [text_page heading_x, text_page [32]]"

text \<open>A one-page document with the text \<open>hello\<close>.\<close>

definition hello_doc :: "real pdf_file" where
  "hello_doc = Pdf [text_page hello]"

text \<open>A page of height 8 with the lines \<open>a\<close>, \<open>b\<close>, \<open>c\<close>: \<open>a\<close> lies at 3, \<open>b\<close> at 4 and
  \<open>c\<close> is not found. With the thresholds 1/4 and 1/2 the band is from 2 to 4; all these
  numbers are exact in binary floating point.\<close>

definition band_page :: "real page" where
  "band_page =
     \<lparr>height = 8,
      page_extract_text = Inr (Some [97, 10, 98, 10, 99]),
      search = (\<lambda>line. if line = [97] then Inr [\<lparr>top_offset = 3\<rparr>]
                        else if line = [98] then Inr [\<lparr>top_offset = 4\<rparr>]
                        else Inr [])\<rparr>"

definition band_thresholds :: "real thresholds" where
  "band_thresholds = \<lparr>header_threshold = 1 / 4, footer_threshold = 1 / 2\<rparr>"

text \<open>A page of height 8 with the lines \<open>a\<close> and \<open>(\<close>: \<open>a\<close> lies at 3, inside the band
  from 2 to 4, and the lookup of \<open>(\<close> raises (\<open>page.search\<close> reads its argument as a
  regular expression, and an unbalanced parenthesis is none).\<close>

definition raise_page :: "real page" where
  "raise_page =
     \<lparr>height = 8,
      page_extract_text = Inr (Some [97, 10, 40]),
      search = (\<lambda>line. if line = [97] then Inr [\<lparr>top_offset = 3\<rparr>] else Inl PdfError)\<rparr>"

section \<open>Strings: whitespace and substrings\<close>

lemma isspace_32: "isspace 32" by (simp add: isspace_def)

lemma dropWhile_noop: "xs = [] \<or> \<not> P (hd xs) \<Longrightarrow> dropWhile P xs = xs"
  by (cases xs) auto

lemma hd_dropWhile_sub_ws: "sub_ws (dropWhile isspace cs) = [] \<or> \<not> isspace (hd (sub_ws (dropWhile isspace cs)))"
proof (cases "dropWhile isspace cs")
  case Nil then show ?thesis unfolding Nil by simp
next
  case (Cons d ds)
  then have "\<not> isspace d" using hd_dropWhile[of isspace cs] by (metis list.sel(1) list.distinct(1))
  then show ?thesis using Cons by simp
qed

lemma sub_ws_set: "c \<in> set (sub_ws s) \<Longrightarrow> isspace c \<Longrightarrow> c = 32"
proof (induction s rule: sub_ws.induct)
  case 1 then show ?case by simp
next
  case (2 d ds) then show ?case by (auto split: if_splits)
qed

lemma sub_ws_succ: "successively (\<lambda>a b. \<not> (isspace a \<and> isspace b)) (sub_ws s)"
proof (induction s rule: sub_ws.induct)
  case 1 then show ?case by simp
next
  case (2 d ds)
  show ?case
  proof (cases "isspace d")
    case True
    with 2 have ih: "successively (\<lambda>a b. \<not> (isspace a \<and> isspace b)) (sub_ws (dropWhile isspace ds))" by simp
    from hd_dropWhile_sub_ws[of ds] ih True show ?thesis
      by (cases "sub_ws (dropWhile isspace ds)") (auto)
  next
    case False
    with 2 have ih: "successively (\<lambda>a b. \<not> (isspace a \<and> isspace b)) (sub_ws ds)" by simp
    with False show ?thesis by (cases "sub_ws ds") auto
  qed
qed

lemma ws_ok_sub_ws: "ws_ok (sub_ws s)"
  using sub_ws_set sub_ws_succ by (auto simp: ws_ok_def)

lemma ws_ok_fix: "ws_ok r \<Longrightarrow> sub_ws r = r"
proof (induction r)
  case Nil then show ?case by simp
next
  case (Cons c cs)
  then have ok: "ws_ok cs" by (cases cs) (auto simp: ws_ok_def)
  show ?case
  proof (cases "isspace c")
    case True
    then have c: "c = 32" using Cons.prems by (auto simp: ws_ok_def)
    have "cs = [] \<or> \<not> isspace (hd cs)" using Cons.prems True by (cases cs) (auto simp: ws_ok_def)
    then have "dropWhile isspace cs = cs" by (rule dropWhile_noop)
    then show ?thesis using True c Cons.IH[OF ok] by simp
  next
    case False
    then show ?thesis using Cons.IH[OF ok] by simp
  qed
qed

lemma ws_ok_dropWhile: "ws_ok r \<Longrightarrow> ws_ok (dropWhile P r)"
proof -
  assume a: "ws_ok r"
  have "r = takeWhile P r @ dropWhile P r" by simp
  then have "successively (\<lambda>a b. \<not> (isspace a \<and> isspace b)) (takeWhile P r @ dropWhile P r)"
    using a by (simp add: ws_ok_def)
  then have "successively (\<lambda>a b. \<not> (isspace a \<and> isspace b)) (dropWhile P r)"
    by (simp only: successively_append_iff)
  moreover have "set (dropWhile P r) \<subseteq> set r" by (rule set_dropWhileD[THEN subsetI])
  ultimately show ?thesis using a by (auto simp: ws_ok_def)
qed

lemma ws_ok_rev: "ws_ok r \<Longrightarrow> ws_ok (rev r)"
proof -
  assume a: "ws_ok r"
  then have "successively (\<lambda>a b. \<not> (isspace a \<and> isspace b)) r"
    by (simp add: ws_ok_def)
  then have "successively (\<lambda>x y. \<not> (isspace y \<and> isspace x)) r"
    by (rule successively_mono) auto
  then have "successively (\<lambda>a b. \<not> (isspace a \<and> isspace b)) (rev r)"
    by (simp only: successively_rev)
  then show "ws_ok (rev r)" using a by (simp add: ws_ok_def)
qed

lemma ws_ok_strip: "ws_ok r \<Longrightarrow> ws_ok (strip r)"
  unfolding strip_def by (intro ws_ok_rev ws_ok_dropWhile)

lemma strip_ends:
  "strip s = [] \<or> (\<not> isspace (hd (strip s)) \<and> \<not> isspace (last (strip s)))"
proof (cases "strip s = []")
  case True then show ?thesis by simp
next
  case False
  let ?y = "dropWhile isspace s"
  let ?z = "strip s"
  have rz: "rev ?z = dropWhile isspace (rev ?y)" by (simp add: strip_def)
  have "rev ?y = takeWhile isspace (rev ?y) @ rev ?z" by (simp add: rz)
  then have "?y = ?z @ rev (takeWhile isspace (rev ?y))"
    by (metis rev_append rev_rev_ident)
  then have hd: "hd ?y = hd ?z" using False by (metis hd_append2)
  have "?y \<noteq> []"
  proof
    assume e: "?y = []"
    have "strip s = []" unfolding strip_def e by simp
    with False show False by simp
  qed
  then have "\<not> isspace (hd ?y)" by (rule hd_dropWhile)
  moreover have "rev ?z \<noteq> []" using False by simp
  then have "\<not> isspace (hd (rev ?z))" unfolding rz by (rule hd_dropWhile)
  then have "\<not> isspace (last ?z)" using False by (simp add: hd_rev)
  ultimately show ?thesis using hd by simp
qed

lemma strip_noop:
  assumes "r = [] \<or> (\<not> isspace (hd r) \<and> \<not> isspace (last r))"
  shows "strip r = r"
proof (cases "r = []")
  case True then show ?thesis by (simp add: strip_def)
next
  case False
  with assms have h: "\<not> isspace (hd r)" and l: "\<not> isspace (last r)" by auto
  have 1: "dropWhile isspace r = r" using h by (intro dropWhile_noop) simp
  have "\<not> isspace (hd (rev r))" using l False by (simp add: hd_rev)
  then have 2: "dropWhile isspace (rev r) = rev r" by (intro dropWhile_noop) simp
  show ?thesis by (simp add: strip_def 1 2)
qed

lemma strip_idem: "strip (strip s) = strip s"
  using strip_ends[of s] by (rule strip_noop)

lemma startswith_iff: "startswith n h \<longleftrightarrow> (\<exists>s. h = n @ s)"
  by (induction n h rule: startswith.induct) auto

lemma contains_iff: "contains n h \<longleftrightarrow> occurs_in n h"
proof (induction h)
  case Nil
  then show ?case by (auto simp: occurs_in_def)
next
  case (Cons x hs)
  show ?case
  proof
    assume "contains n (x # hs)"
    then consider "startswith n (x # hs)" | "contains n hs" by auto
    then show "occurs_in n (x # hs)"
    proof cases
      case 1
      then obtain s where "x # hs = n @ s" by (auto simp: startswith_iff)
      then have "x # hs = [] @ n @ s" by simp
      then show ?thesis unfolding occurs_in_def by blast
    next
      case 2
      then obtain p s where "hs = p @ n @ s" using Cons.IH by (auto simp: occurs_in_def)
      then have "x # hs = (x # p) @ n @ s" by simp
      then show ?thesis unfolding occurs_in_def by blast
    qed
  next
    assume "occurs_in n (x # hs)"
    then obtain p s where e: "x # hs = p @ n @ s" by (auto simp: occurs_in_def)
    show "contains n (x # hs)"
    proof (cases p)
      case Nil
      then have "startswith n (x # hs)" using e by (auto simp: startswith_iff)
      then show ?thesis by simp
    next
      case (Cons y p')
      then have "hs = p' @ n @ s" using e by simp
      then have "occurs_in n hs" unfolding occurs_in_def by blast
      then show ?thesis using Cons.IH by simp
    qed
  qed
qed

section \<open>The normalizer is idempotent\<close>

text \<open>
  Claim C8. The normalizer (join the lines with one space, collapse every run of
  whitespace to one space, trim) is idempotent: a string in normalized form, that is a
  result of the normalization, is returned unchanged when normalized again. This holds for
  the string operation \<open>normalize_text\<close> and for the normalizer applied to the one-line
  sequence holding its own result.
\<close>

theorem normalizer_idempotent:
  "normalize_text (normalize_text s) = normalize_text s \<and>
   normalizer [normalizer filtered_lines] = normalizer filtered_lines"
proof -
  have idem: "normalize_text (normalize_text t) = normalize_text t" for t
  proof -
    have "ws_ok (strip (sub_ws t))" by (intro ws_ok_strip ws_ok_sub_ws)
    then have "sub_ws (strip (sub_ws t)) = strip (sub_ws t)" by (rule ws_ok_fix)
    then show ?thesis by (simp add: normalize_text_def strip_idem)
  qed
  then show ?thesis by (simp add: normalizer_def)
qed

section \<open>The keyword filter\<close>

lemma keyword_filter_loop_eq:
  "keyword_filter_loop lines acc = acc @ filter (\<lambda>line. \<not> contains footer_keyword line) lines"
  by (induction lines arbitrary: acc) auto

text \<open>
  Claim C7. In the keyword boilerplate filter a line is retained iff the marker \<open>xxx\<close>
  occurs nowhere in it, and the output is the subsequence of the retained lines in input
  order.
\<close>

theorem keyword_filter_retains:
  "keyword_filter lines = filter (\<lambda>line. \<not> occurs_in footer_keyword line) lines \<and>
   subseq (keyword_filter lines) lines \<and>
   (line \<in> set (keyword_filter lines) \<longleftrightarrow> line \<in> set lines \<and> \<not> occurs_in footer_keyword line)"
  by (simp add: keyword_filter_def keyword_filter_loop_eq contains_iff)

section \<open>The title detector\<close>

lemma scan_step:
  "scan_author i ls =
     (if i < length ls
      then (if author_line (ls ! i) then Some (strip (join_sp (take i ls)), ls ! i)
            else scan_author (Suc i) ls)
      else None)"
  by (subst scan_author.simps) (simp add: Let_def author_line_def contains_iff)

lemma scan_author_None:
  "scan_author i ls = None \<longleftrightarrow> (\<forall>j. i \<le> j \<and> j < length ls \<longrightarrow> \<not> author_line (ls ! j))"
proof (induction i ls rule: scan_author.induct)
  case (1 i ls)
  show ?case
  proof (cases "i < length ls")
    case False
    then show ?thesis by (subst scan_step) auto
  next
    case True
    show ?thesis
    proof (cases "author_line (ls ! i)")
      case a: True
      then have "scan_author i ls \<noteq> None"
        using True by (subst scan_step) simp
      then show ?thesis using a True by auto
    next
      case na: False
      then have s: "scan_author i ls = scan_author (Suc i) ls"
        using True by (subst scan_step) simp
      have "scan_author (Suc i) ls = None \<longleftrightarrow>
            (\<forall>j. Suc i \<le> j \<and> j < length ls \<longrightarrow> \<not> author_line (ls ! j))"
        using "1.IH"[OF True refl] na by (simp add: author_line_def contains_iff)
      moreover have "(\<forall>j. Suc i \<le> j \<and> j < length ls \<longrightarrow> \<not> author_line (ls ! j)) \<longleftrightarrow>
            (\<forall>j. i \<le> j \<and> j < length ls \<longrightarrow> \<not> author_line (ls ! j))"
        using na by (metis Suc_leD Suc_leI le_neq_implies_less)
      ultimately show ?thesis using s by simp
    qed
  qed
qed

lemma scan_author_Some:
  "i \<le> k \<Longrightarrow> k < length ls \<Longrightarrow> author_line (ls ! k) \<Longrightarrow>
   (\<forall>j. i \<le> j \<and> j < k \<longrightarrow> \<not> author_line (ls ! j)) \<Longrightarrow>
   scan_author i ls = Some (strip (join_sp (take k ls)), ls ! k)"
proof (induction i ls rule: scan_author.induct)
  case (1 i ls)
  have il: "i < length ls" using "1.prems" by simp
  show ?case
  proof (cases "i = k")
    case True
    then show ?thesis using "1.prems"
      by (subst scan_step) simp
  next
    case False
    then have lt: "i < k" using "1.prems" by simp
    then have na: "\<not> author_line (ls ! i)" using "1.prems" by simp
    then have s: "scan_author i ls = scan_author (Suc i) ls"
      using il by (subst scan_step) simp
    have "scan_author (Suc i) ls = Some (strip (join_sp (take k ls)), ls ! k)"
    proof (rule "1.IH"[OF il refl])
      show "\<not> (4 \<le> length (ls ! i) \<and> contains author_marker (ls ! i))"
        using na by (simp add: author_line_def contains_iff)
      show "Suc i \<le> k" using lt by simp
      show "k < length ls" using "1.prems" by simp
      show "author_line (ls ! k)" using "1.prems" by simp
      show "\<forall>j. Suc i \<le> j \<and> j < k \<longrightarrow> \<not> author_line (ls ! j)" using "1.prems" by simp
    qed
    then show ?thesis using s by simp
  qed
qed


lemma join_sp_ends:
  "ls \<noteq> [] \<Longrightarrow> \<forall>l\<in>set ls. l \<noteq> [] \<and> \<not> isspace (hd l) \<and> \<not> isspace (last l) \<Longrightarrow>
   join_sp ls \<noteq> [] \<and> \<not> isspace (hd (join_sp ls)) \<and> \<not> isspace (last (join_sp ls))"
  by (induction ls rule: join_sp.induct) auto

lemma strip_join_sp:
  assumes "ls \<noteq> []" and "\<forall>l\<in>set ls. l \<noteq> [] \<and> \<not> isspace (hd l) \<and> \<not> isspace (last l)"
  shows "strip (join_sp ls) = join_sp ls"
  using join_sp_ends[OF assms] by (intro strip_noop) simp

lemma candidate_lines_code:
  "candidate_lines text = map strip (filter (\<lambda>line. strip line \<noteq> []) (take 4 (split_nl text)))"
  by (simp add: candidate_lines_def filter_map comp_def)

lemma candidate_lines_ends:
  "l \<in> set (candidate_lines text) \<Longrightarrow> l \<noteq> [] \<and> \<not> isspace (hd l) \<and> \<not> isspace (last l)"
  using strip_ends by (auto simp: candidate_lines_def)

lemma detect_title_text_scan:
  "detect_title_text text =
     (if 2 \<le> length (candidate_lines text) then scan_author 1 (candidate_lines text) else None)"
proof -
  have le: "length (candidate_lines text) \<le> length (take 4 (split_nl text))"
    unfolding candidate_lines_code by (simp del: length_take)
  have e: "candidate_lines [] = []"
    by (simp add: candidate_lines_def strip_def)
  show ?thesis
  proof (cases "text = []")
    case True
    then show ?thesis by (simp add: detect_title_text_def e)
  next
    case False
    then show ?thesis using le
      by (auto simp add: detect_title_text_def Let_def candidate_lines_code[symmetric]
          simp del: length_take)
  qed
qed

text \<open>
  Claim C2. On a page with raw text \<open>text\<close>, let the candidate lines be the first four
  lines of the text, stripped, without the empty ones. The title detector returns a pair
  exactly when at least two candidate lines remain and some line at an index \<open>i \<ge> 1\<close> is an
  author line (length at least 4, containing the author marker); at the first such \<open>i\<close>
  the title is the space-join of the lines before \<open>i\<close> and the author-info is line \<open>i\<close>.
  Otherwise it returns no title.
\<close>

theorem detect_title_spec:
  assumes "page_extract_text page = Inr (Some text)"
  shows "(detect_title page = None \<longleftrightarrow>
            \<not> (2 \<le> length (candidate_lines text) \<and>
               (\<exists>i. 1 \<le> i \<and> i < length (candidate_lines text) \<and>
                    author_line (candidate_lines text ! i)))) \<and>
         (\<forall>i. 1 \<le> i \<and> i < length (candidate_lines text) \<and>
              author_line (candidate_lines text ! i) \<and>
              (\<forall>j. 1 \<le> j \<and> j < i \<longrightarrow> \<not> author_line (candidate_lines text ! j)) \<longrightarrow>
              detect_title page = Some (join_sp (take i (candidate_lines text)),
                                        candidate_lines text ! i))"
proof -
  let ?ls = "candidate_lines text"
  have d: "detect_title page = (if 2 \<le> length ?ls then scan_author 1 ?ls else None)"
    using assms by (simp add: detect_title_def detect_title_text_scan)
  have none: "detect_title page = None \<longleftrightarrow>
      \<not> (2 \<le> length ?ls \<and> (\<exists>i. 1 \<le> i \<and> i < length ?ls \<and> author_line (?ls ! i)))"
    unfolding d by (auto simp: scan_author_None)
  have some: "detect_title page = Some (join_sp (take i ?ls), ?ls ! i)"
    if i: "1 \<le> i" "i < length ?ls" "author_line (?ls ! i)"
      and first: "\<forall>j. 1 \<le> j \<and> j < i \<longrightarrow> \<not> author_line (?ls ! j)" for i
  proof -
    have "2 \<le> length ?ls" using i by simp
    then have "detect_title page = scan_author 1 ?ls" using d by simp
    also have "\<dots> = Some (strip (join_sp (take i ?ls)), ?ls ! i)"
      using i first by (intro scan_author_Some) auto
    also have "strip (join_sp (take i ?ls)) = join_sp (take i ?ls)"
    proof (rule strip_join_sp)
      show "take i ?ls \<noteq> []" using i by auto
      show "\<forall>l\<in>set (take i ?ls). l \<noteq> [] \<and> \<not> isspace (hd l) \<and> \<not> isspace (last l)"
        using candidate_lines_ends by (meson in_set_takeD)
    qed
    finally show ?thesis .
  qed
  show ?thesis using none some by blast
qed

lemma candidate_lines_heading_a:
  "candidate_lines heading_a = [[84], [20316, 32773, 21517, 97]]"
  by (simp add: candidate_lines_def heading_a_def strip_def isspace_def)

lemma author_line_heading_a: "author_line [20316, 32773, 21517, 97]"
  by (simp add: author_line_def contains_iff[symmetric] author_marker_def)

theorem detect_title_spec_witness:
  "page_extract_text (text_page heading_a) = Inr (Some heading_a) \<and>
   detect_title (text_page heading_a) = Some ([84], [20316, 32773, 21517, 97])"
proof -
  have h: "page_extract_text (text_page heading_a) = Inr (Some heading_a)"
    by (simp add: text_page_def)
  have "1 \<le> (1::nat) \<and> 1 < length (candidate_lines heading_a) \<and>
        author_line (candidate_lines heading_a ! 1) \<and>
        (\<forall>j. 1 \<le> j \<and> j < (1::nat) \<longrightarrow> \<not> author_line (candidate_lines heading_a ! j))"
    by (simp add: candidate_lines_heading_a author_line_heading_a)
  with detect_title_spec[OF h]
  have "detect_title (text_page heading_a) =
        Some (join_sp (take 1 (candidate_lines heading_a)), candidate_lines heading_a ! 1)"
    by blast
  then show ?thesis using h by (simp add: candidate_lines_heading_a)
qed

section \<open>The positional filter\<close>

lemma positional_filter_loop_step:
  "positional_filter_loop page hh fh (line # lines) acc =
     (case search page line of
        Inl e \<Rightarrow> Inl e
      | Inr m \<Rightarrow> positional_filter_loop page hh fh lines
                  (if retained_line page hh fh line then acc @ [line] else acc))"
  by (auto simp: retained_line_def Let_def split: sum.splits list.splits)

lemma positional_filter_loop_Inr:
  "positional_filter_loop page hh fh lines acc = Inr out \<Longrightarrow>
   out = acc @ filter (retained_line page hh fh) lines"
proof (induction lines arbitrary: acc)
  case Nil
  then show ?case by simp
next
  case (Cons line lines)
  from Cons.prems obtain m where
    m: "search page line = Inr m" and
    r: "positional_filter_loop page hh fh lines
          (if retained_line page hh fh line then acc @ [line] else acc) = Inr out"
    by (simp only: positional_filter_loop_step split: sum.splits) auto
  from Cons.IH[OF r] show ?case by simp
qed

lemma positional_filter_loop_ok:
  "\<forall>line\<in>set lines. \<not> isl (search page line) \<Longrightarrow>
   positional_filter_loop page hh fh lines acc = Inr (acc @ filter (retained_line page hh fh) lines)"
proof (induction lines arbitrary: acc)
  case Nil
  then show ?case by simp
next
  case (Cons line lines)
  then show ?case
    by (simp only: positional_filter_loop_step split: sum.splits) (auto split: if_splits)
qed

lemma positional_filter_loop_raises:
  "\<exists>line\<in>set lines. isl (search page line) \<Longrightarrow>
   isl (positional_filter_loop page hh fh lines acc)"
proof (induction lines arbitrary: acc)
  case Nil
  then show ?case by simp
next
  case (Cons line lines)
  then show ?case
    by (simp only: positional_filter_loop_step split: sum.splits) (auto split: if_splits)
qed

text \<open>
  Claim C3, as amended. In the positional filter, with
  \<open>header_height = page.height * header_threshold\<close> and
  \<open>footer_height = page.height * footer_threshold\<close>, provided that no position lookup on the
  page raises, a line is retained iff its position lookup succeeds and the top offset \<open>t\<close>
  of the first match satisfies \<open>header_height < t < footer_height\<close>, and the output keeps
  the input order; a line whose position is not found is dropped. When a lookup on the
  page raises, the filter has no output at all: the exception leaves the loop.
\<close>

theorem positional_filter_retains:
  "(if \<forall>line\<in>set lines. \<not> isl (search page line)
    then positional_filter self page lines =
           Inr (filter (retained_line page (height page * header_threshold self)
                          (height page * footer_threshold self)) lines)
    else isl (positional_filter self page lines)) \<and>
   (\<forall>out line. positional_filter self page lines = Inr out \<longrightarrow>
      (line \<in> set out \<longleftrightarrow>
         line \<in> set lines \<and>
         retained_line page (height page * header_threshold self)
           (height page * footer_threshold self) line)) \<and>
   (\<forall>out line. positional_filter self page lines = Inr out \<and> search page line = Inr [] \<longrightarrow>
      line \<notin> set out)"
proof -
  have d: "line \<in> set out \<longleftrightarrow>
         line \<in> set lines \<and>
         retained_line page (height page * header_threshold self)
           (height page * footer_threshold self) line"
    if "positional_filter self page lines = Inr out" for out line
    using that
      positional_filter_loop_Inr[of page "height page * header_threshold self"
        "height page * footer_threshold self" lines "[]" out]
    by (auto simp: positional_filter_def)
  have a: "positional_filter self page lines =
           Inr (filter (retained_line page (height page * header_threshold self)
                          (height page * footer_threshold self)) lines)"
    if "\<forall>line\<in>set lines. \<not> isl (search page line)"
    using positional_filter_loop_ok[OF that] by (simp add: positional_filter_def)
  have b: "isl (positional_filter self page lines)"
    if "\<not> (\<forall>line\<in>set lines. \<not> isl (search page line))"
    using positional_filter_loop_raises that by (simp add: positional_filter_def)
  have c: "line \<notin> set out"
    if "positional_filter self page lines = Inr out" "search page line = Inr []" for out line
    using that
      positional_filter_loop_Inr[of page "height page * header_threshold self"
        "height page * footer_threshold self" lines "[]" out]
    by (auto simp: positional_filter_def retained_line_def)
  show ?thesis
  proof (intro conjI allI impI)
    show "if \<forall>line\<in>set lines. \<not> isl (search page line)
      then positional_filter self page lines =
           Inr (filter (retained_line page (height page * header_threshold self)
                          (height page * footer_threshold self)) lines)
      else isl (positional_filter self page lines)"
    proof (cases "\<forall>line\<in>set lines. \<not> isl (search page line)")
      case True
      show ?thesis using a[OF True] True by simp
    next
      case False
      show ?thesis using b[OF False] False by auto
    qed
  next
    fix out line
    assume "positional_filter self page lines = Inr out"
    then show "line \<in> set out \<longleftrightarrow>
         line \<in> set lines \<and>
         retained_line page (height page * header_threshold self)
           (height page * footer_threshold self) line"
      by (rule d)
  next
    fix out line
    assume "positional_filter self page lines = Inr out \<and> search page line = Inr []"
    then show "line \<notin> set out" using c by blast
  qed
qed

theorem positional_filter_retains_witness:
  "positional_filter band_thresholds band_page [[97], [98], [99]] = Inr [[97]]"
proof -
  have "\<forall>line\<in>set [[97], [98], [99::nat]]. \<not> isl (search band_page line)"
    by (simp add: band_page_def)
  with positional_filter_retains[of "[[97], [98], [99]]" band_page band_thresholds]
  have "positional_filter band_thresholds band_page [[97], [98], [99]] =
        Inr (filter (retained_line band_page (height band_page * header_threshold band_thresholds)
                          (height band_page * footer_threshold band_thresholds)) [[97], [98], [99]])"
    by presburger
  then show ?thesis
    by (simp add: retained_line_def band_page_def band_thresholds_def)
qed

text \<open>
  Claim C3 as stated (for every line of a page, retained iff found inside the band) fails
  where a lookup raises. On \<open>raise_page\<close> the line \<open>a\<close> is found at 3, strictly between
  the header height 2 and the footer height 4, but the lookup of the next line raises:
  the filter returns the exception, the page's \<open>try\<close> block ends with it, and the
  extractor returns no text, so the line \<open>a\<close> is not retained.
\<close>

theorem lookup_raises_counterexample:
  "search raise_page [97] = Inr [\<lparr>top_offset = 3\<rparr>] \<and>
   height raise_page * header_threshold band_thresholds = 2 \<and>
   height raise_page * footer_threshold band_thresholds = 4 \<and>
   split_nl [97, 10, 40] = [[97], [40]] \<and>
   positional_filter band_thresholds raise_page [[97], [40]] = Inl PdfError \<and>
   pdf_page_text band_thresholds raise_page = Inl PdfError \<and>
   pdf_extract_text band_thresholds (Pdf [raise_page]) = None"
proof -
  have f: "positional_filter band_thresholds raise_page [[97], [40]] = Inl PdfError"
    by (simp add: positional_filter_def raise_page_def band_thresholds_def)
  have t: "page_extract_text raise_page = Inr (Some [97, 10, 40])"
    by (simp add: raise_page_def)
  have p: "pdf_page_text band_thresholds raise_page = Inl PdfError"
    by (simp add: pdf_page_text_def t f)
  have e: "pdf_extract_text band_thresholds (Pdf [raise_page]) = None"
    by (simp add: pdf_extract_text_def validate_pdf_def p)
  show ?thesis using f p e
    by (simp add: raise_page_def band_thresholds_def)
qed

text \<open>
  Claim C4, as amended. A line whose looked-up top offset is exactly equal to
  \<open>footer_height\<close> is dropped: the band is open at both ends.
\<close>

theorem footer_boundary_dropped:
  fixes page :: "('a::{preorder,times}) page"
  assumes "search page line = Inr (b # bs)"
    and "top_offset b = height page * footer_threshold self"
    and "positional_filter self page lines = Inr out"
  shows "line \<notin> set out"
proof
  assume "line \<in> set out"
  moreover have "out = filter (retained_line page (height page * header_threshold self)
                          (height page * footer_threshold self)) lines"
    using assms(3)
      positional_filter_loop_Inr[of page "height page * header_threshold self"
        "height page * footer_threshold self" lines "[]" out]
    by (simp add: positional_filter_def)
  ultimately have "retained_line page (height page * header_threshold self)
                     (height page * footer_threshold self) line"
    by simp
  then have "top_offset b < height page * footer_threshold self"
    using assms(1) by (auto simp: retained_line_def)
  then show False using assms(2) by simp
qed

theorem footer_boundary_dropped_witness:
  "search band_page [98] = Inr (\<lparr>top_offset = 4\<rparr> # []) \<and>
   top_offset \<lparr>top_offset = 4::real\<rparr> = height band_page * footer_threshold band_thresholds \<and>
   positional_filter band_thresholds band_page [[97], [98], [99]] = Inr [[97]] \<and>
   [98] \<notin> set [[97::nat]]"
proof -
  have 1: "search band_page [98] = Inr (\<lparr>top_offset = 4\<rparr> # [])" by (simp add: band_page_def)
  have 2: "top_offset \<lparr>top_offset = 4::real\<rparr> = height band_page * footer_threshold band_thresholds"
    by (simp add: band_page_def band_thresholds_def)
  have 3: "positional_filter band_thresholds band_page [[97], [98], [99]] = Inr [[97]]"
    by (simp add: positional_filter_def band_page_def band_thresholds_def)
  from footer_boundary_dropped[OF 1 2 3] show ?thesis using 1 2 3 by simp
qed

text \<open>
  Claim C4 as stated (such a line is retained) fails: on \<open>band_page\<close> the line \<open>b\<close> lies
  at 4, which is the footer height, and is not in the output.
\<close>

theorem footer_boundary_counterexample:
  "search band_page [98] = Inr [\<lparr>top_offset = 4\<rparr>] \<and>
   height band_page * footer_threshold band_thresholds = 4 \<and>
   positional_filter band_thresholds band_page [[97], [98], [99]] = Inr [[97]]"
  by (simp add: positional_filter_def band_page_def band_thresholds_def)

section \<open>The section accumulator\<close>

lemma current_title_process_page:
  "current_title (process_page page st) = next_title (current_title st) page"
  by (auto simp: process_page_def register_title_def page_body_def append_content_def
      next_title_def Let_def split: option.splits sum.splits)

lemma process_page_present:
  assumes "map_of (sections st) t = Some s"
  shows "map_of (sections (process_page page st)) t =
         Some (s\<lparr>content := content s @
                  (if next_title (current_title st) page = t then contribution page else [])\<rparr>)"
  using assms
  by (auto simp: process_page_def register_title_def page_body_def append_content_def
      next_title_def contribution_def Let_def update_conv'
      split: option.splits sum.splits)

lemma process_page_absent:
  assumes "map_of (sections st) t = None" and "\<not> detects t page"
  shows "map_of (sections (process_page page st)) t = None"
  using assms
  by (auto simp: process_page_def register_title_def page_body_def append_content_def
      detects_def Let_def update_conv'
      split: option.splits sum.splits)

lemma process_page_first:
  assumes "map_of (sections st) t = None" and "detect_title page = Some (t, a)"
  shows "map_of (sections (process_page page st)) t =
         Some \<lparr>title = t, author_info = a, content = contribution page\<rparr>"
  using assms
  by (auto simp: process_page_def register_title_def page_body_def append_content_def
      contribution_def Let_def update_conv'
      split: option.splits sum.splits)

lemma process_page_distinct:
  "distinct (map fst (sections st)) \<Longrightarrow> distinct (map fst (sections (process_page page st)))"
  by (auto simp: process_page_def register_title_def page_body_def append_content_def
      Let_def distinct_update
      split: option.splits sum.splits)

lemma process_page_empty:
  "sections (process_page page st) = [] \<longleftrightarrow> sections st = [] \<and> detect_title page = None"
  by (auto simp: process_page_def register_title_def page_body_def append_content_def
      Let_def 
      split: option.splits sum.splits)


lemma extract_loop_append:
  "extract_loop (xs @ ys) st = extract_loop ys (extract_loop xs st)"
  by (induction xs arbitrary: st) auto

lemma extract_loop_present:
  "map_of (sections st) t = Some s \<Longrightarrow>
   map_of (sections (extract_loop pages st)) t =
     Some (s\<lparr>content := content s @ routed t (current_title st) pages\<rparr>)"
proof (induction pages arbitrary: st s)
  case Nil
  then show ?case by simp
next
  case (Cons page pages)
  let ?s' = "s\<lparr>content := content s @
                  (if next_title (current_title st) page = t then contribution page else [])\<rparr>"
  have "map_of (sections (process_page page st)) t = Some ?s'"
    using Cons.prems by (rule process_page_present)
  from Cons.IH[OF this] show ?case
    by (simp add: current_title_process_page)
qed

lemma extract_loop_absent:
  "map_of (sections st) t = None \<Longrightarrow> \<forall>page\<in>set pages. \<not> detects t page \<Longrightarrow>
   map_of (sections (extract_loop pages st)) t = None"
proof (induction pages arbitrary: st)
  case Nil
  then show ?case by simp
next
  case (Cons page pages)
  have "map_of (sections (process_page page st)) t = None"
    using Cons.prems by (intro process_page_absent) auto
  from Cons.IH[OF this] Cons.prems show ?case by simp
qed

lemma extract_loop_distinct:
  "distinct (map fst (sections st)) \<Longrightarrow> distinct (map fst (sections (extract_loop pages st)))"
  by (induction pages arbitrary: st) (auto intro: process_page_distinct)

lemma extract_loop_empty:
  "sections (extract_loop pages st) = [] \<longleftrightarrow>
   sections st = [] \<and> (\<forall>page\<in>set pages. detect_title page = None)"
  by (induction pages arbitrary: st) (auto simp: process_page_empty)

lemma routed_detects:
  "subseq (concat (map contribution (filter (detects t) pages))) (routed t cur pages)"
proof (induction pages arbitrary: cur)
  case Nil
  then show ?case by simp
next
  case (Cons page pages)
  show ?case
  proof (cases "detects t page")
    case True
    then have "next_title cur page = t" by (auto simp: detects_def next_title_def)
    then show ?thesis using True Cons.IH[of t] by (simp add: subseq_append')
  next
    case False
    then show ?thesis using Cons.IH[of "next_title cur page"] by (auto intro: list_emb_append2)
  qed
qed

lemma custom_extract_text_Pdf:
  "pages \<noteq> [] \<Longrightarrow>
   custom_extract_text (Pdf pages) =
     (sections (extract_loop pages init_state) \<noteq> [], sections (extract_loop pages init_state))"
  by (simp add: custom_extract_text_def validate_pdf_def Let_def)

lemma failed_text_no_title:
  assumes "page_extract_text page = Inl e \<or> page_extract_text page = Inr None \<or>
           page_extract_text page = Inr (Some [])"
  shows "detect_title page = None" and "process_page page st = st"
  using assms
  by (auto simp: detect_title_def detect_title_text_def process_page_def register_title_def
      page_body_def page_text_def)

lemma custom_extract_text_skip:
  assumes "process_page page = (\<lambda>st. st)"
  shows "custom_extract_text (Pdf (before @ page # after)) =
         custom_extract_text (Pdf (before @ after))"
proof (cases "before @ after = []")
  case True
  then show ?thesis using assms
    by (simp add: custom_extract_text_def validate_pdf_def init_state_def init_sections_def)
next
  case False
  then show ?thesis using assms
    by (simp add: custom_extract_text_Pdf extract_loop_append)
qed

subsection \<open>Evaluation on the example pages\<close>

lemma detect_title_hello: "detect_title (text_page hello) = None"
  by (simp add: detect_title_def text_page_def detect_title_text_def hello_def)

lemma page_text_hello: "page_text (text_page hello) = Inr (Some hello)"
  by (simp add: page_text_def text_page_def keyword_filter_def footer_keyword_def
      normalizer_def normalize_text_def strip_def isspace_def hello_def)

lemma page_body_hello_init:
  "page_body (text_page hello) init_state = Inl (KeyError unclassified)"
  by (simp add: page_body_def page_text_hello append_content_def init_state_def
      init_sections_def)

lemma detect_title_heading_x:
  "detect_title (text_page heading_x) =
     Some ([84, 120, 120, 120], [20316, 32773, 21517, 120, 120, 120])"
proof -
  have "scan_author (Suc 0) [[84, 120, 120, 120], [20316, 32773, 21517, 120, 120, 120]] =
        Some ([84, 120, 120, 120], [20316, 32773, 21517, 120, 120, 120])"
    by (subst scan_author.simps) (simp add: author_marker_def strip_def isspace_def)
  then show ?thesis
    by (simp add: detect_title_def text_page_def detect_title_text_def heading_x_def
        strip_def isspace_def)
qed

lemma page_text_heading_x: "page_text (text_page heading_x) = Inr None"
  by (simp add: page_text_def text_page_def keyword_filter_def footer_keyword_def
      heading_x_def)

lemma detect_title_blank: "detect_title (text_page [32]) = None"
  by (simp add: detect_title_def text_page_def detect_title_text_def)

lemma page_text_blank: "page_text (text_page [32]) = Inr (Some [])"
  by (simp add: page_text_def text_page_def keyword_filter_def footer_keyword_def
      normalizer_def normalize_text_def strip_def isspace_def)

lemma sections_blank_doc:
  "snd (custom_extract_text blank_doc) =
     [([84, 120, 120, 120],
       \<lparr>title = [84, 120, 120, 120], author_info = [20316, 32773, 21517, 120, 120, 120],
        content = [[]]\<rparr>)]"
  by (simp add: blank_doc_def custom_extract_text_def validate_pdf_def init_state_def
      init_sections_def process_page_def register_title_def page_body_def append_content_def
      page_text_heading_x page_text_blank detect_title_heading_x detect_title_blank)

subsection \<open>Pages before the first title\<close>

text \<open>
  Claim C1 (pages before any title are filed under a section "unclassified" that exists
  from the start) does not hold of the code: \<open>__init__\<close> leaves the registry empty, so
  the append for such a page raises \<open>KeyError\<close>, which the page's \<open>except\<close> clause
  swallows. On the one-page document with the text \<open>hello\<close>: no title is detected, the
  page has the text \<open>hello\<close> to file, the \<open>try\<close> block raises, and the run ends with an
  empty registry and the result \<open>False\<close>.
\<close>

theorem unclassified_pages_lost:
  "init_sections = [] \<and>
   detect_title (text_page hello) = None \<and>
   page_text (text_page hello) = Inr (Some hello) \<and>
   page_body (text_page hello) init_state = Inl (KeyError unclassified) \<and>
   custom_extract_text hello_doc = (False, [])"
proof -
  have "custom_extract_text hello_doc = (False, [])"
    by (simp add: hello_doc_def custom_extract_text_def validate_pdf_def process_page_def
        detect_title_hello page_body_hello_init register_title_def)
      (simp add: init_state_def init_sections_def)
  then show ?thesis
    using detect_title_hello page_text_hello page_body_hello_init
    by (simp add: init_sections_def)
qed

subsection \<open>Failures of a page\<close>

text \<open>
  Claim C9. A failure while a page is processed is recovered locally and never ends the
  run. A page whose raw text is unextractable (the extraction raises) or empty yields no
  title, leaves the state as it was, and the run goes on with the next page: the result
  is that of the document without the page. Whenever the \<open>try\<close> block of a page raises,
  the page contributes nothing (the state stays the one after the title detection) and
  the loop continues with the following pages.
\<close>

theorem page_failure_is_local:
  "(page_extract_text page = Inl e \<or> page_extract_text page = Inr None \<or>
    page_extract_text page = Inr (Some []) \<longrightarrow>
      detect_title page = None \<and> process_page page st = st \<and>
      extract_loop (before @ page # after) st = extract_loop (before @ after) st \<and>
      custom_extract_text (Pdf (before @ page # after)) =
        custom_extract_text (Pdf (before @ after))) \<and>
   (page_body page (register_title (detect_title page) st) = Inl e' \<longrightarrow>
      process_page page st = register_title (detect_title page) st \<and>
      extract_loop (page # after) st =
        extract_loop after (register_title (detect_title page) st))"
proof (intro conjI impI)
  assume a: "page_extract_text page = Inl e \<or> page_extract_text page = Inr None \<or>
    page_extract_text page = Inr (Some [])"
  show "detect_title page = None" using a by (rule failed_text_no_title)
  show "process_page page st = st" using a by (rule failed_text_no_title)
  have id: "process_page page = (\<lambda>st. st)"
    using failed_text_no_title(2)[OF a] by (intro ext)
  show "extract_loop (before @ page # after) st = extract_loop (before @ after) st"
    by (simp add: extract_loop_append id)
  show "custom_extract_text (Pdf (before @ page # after)) =
        custom_extract_text (Pdf (before @ after))"
    using id by (rule custom_extract_text_skip)
next
  assume b: "page_body page (register_title (detect_title page) st) = Inl e'"
  then show p: "process_page page st = register_title (detect_title page) st"
    by (simp add: process_page_def)
  then show "extract_loop (page # after) st =
        extract_loop after (register_title (detect_title page) st)"
    by simp
qed

theorem page_failure_is_local_witness:
  "page_extract_text broken_page = Inl PdfError \<and>
   detect_title broken_page = None \<and>
   custom_extract_text (Pdf ([text_page heading_x] @ broken_page # [text_page [32]])) =
     custom_extract_text (Pdf ([text_page heading_x] @ [text_page [32]])) \<and>
   page_body (text_page hello) (register_title (detect_title (text_page hello)) init_state) =
     Inl (KeyError unclassified) \<and>
   process_page (text_page hello) init_state = init_state"
proof -
  have a: "page_extract_text broken_page = Inl PdfError"
    by (simp add: broken_page_def)
  have b: "page_body (text_page hello)
             (register_title (detect_title (text_page hello)) init_state) =
           Inl (KeyError unclassified)"
    by (simp add: detect_title_hello register_title_def page_body_hello_init)
  have r: "register_title (detect_title (text_page hello)) init_state = init_state"
    by (simp add: detect_title_hello register_title_def)
  from page_failure_is_local[of broken_page PdfError init_state "[text_page heading_x]"
      "[text_page [32]]" "KeyError unclassified"] a
  have 1: "detect_title broken_page = None"
    and 2: "custom_extract_text (Pdf ([text_page heading_x] @ broken_page # [text_page [32]])) =
            custom_extract_text (Pdf ([text_page heading_x] @ [text_page [32]]))"
    by blast+
  from page_failure_is_local[of "text_page hello" PdfError init_state "[]" "[]"
      "KeyError unclassified"] b
  have 3: "process_page (text_page hello) init_state =
           register_title (detect_title (text_page hello)) init_state"
    by blast
  show ?thesis using a b 1 2 3 r by simp
qed

subsection \<open>The result of the run\<close>

text \<open>
  Claim C10. \<open>extract_text\<close> of the segmented extractor returns \<open>True\<close> iff the title
  detection succeeded on at least one page of the run, equivalently iff the registry is
  not empty at the end. Whether any page-text was filed plays no role: a readable document
  with text but no page matching the title pattern reports failure.
\<close>

theorem success_iff_title_detected:
  "fst (custom_extract_text pdf_path) =
     (\<exists>pages. pdf_path = Pdf pages \<and> (\<exists>page\<in>set pages. detect_title page \<noteq> None)) \<and>
   fst (custom_extract_text pdf_path) = (snd (custom_extract_text pdf_path) \<noteq> [])"
proof (cases pdf_path)
  case (Pdf pages)
  show ?thesis
  proof (cases "pages = []")
    case True
    then show ?thesis using Pdf
      by (simp add: custom_extract_text_def validate_pdf_def init_sections_def)
  next
    case False
    have "sections init_state = []" by (simp add: init_state_def init_sections_def)
    then have "(sections (extract_loop pages init_state) \<noteq> []) =
          (\<exists>page\<in>set pages. detect_title page \<noteq> None)"
      by (simp add: extract_loop_empty)
    then show ?thesis using Pdf False by (simp add: custom_extract_text_Pdf)
  qed
qed (simp_all add: custom_extract_text_def validate_pdf_def init_sections_def)

theorem success_iff_title_detected_witness:
  "fst (custom_extract_text blank_doc) \<and> \<not> fst (custom_extract_text hello_doc)"
proof -
  have "\<exists>pages. blank_doc = Pdf pages \<and> (\<exists>page\<in>set pages. detect_title page \<noteq> None)"
    by (simp add: blank_doc_def detect_title_heading_x)
  then have 1: "fst (custom_extract_text blank_doc)"
    using success_iff_title_detected[of blank_doc] by blast
  have "\<not> (\<exists>pages. hello_doc = Pdf pages \<and> (\<exists>page\<in>set pages. detect_title page \<noteq> None))"
    by (simp add: hello_doc_def detect_title_hello)
  then have 2: "\<not> fst (custom_extract_text hello_doc)"
    using success_iff_title_detected[of hello_doc] by blast
  show ?thesis using 1 2 by simp
qed

subsection \<open>Pages with the same title\<close>

text \<open>
  Claim C6. When pages yield the same detected title \<open>t\<close>, the registry holds one section
  for \<open>t\<close>. Its author-info is the one of the first page that yielded \<open>t\<close>, never
  overwritten by later detections, and its content is, in page order, the page-texts of
  all pages filed under \<open>t\<close> from that first page on; the page-texts of the pages that
  yield \<open>t\<close> are all among them, in page order.
\<close>

theorem repeated_title_one_section:
  assumes "\<forall>page\<in>set before. \<not> detects t page"
    and "detect_title first = Some (t, a)"
  shows "map_of (snd (custom_extract_text (Pdf (before @ first # rest)))) t =
           Some \<lparr>title = t, author_info = a, content = routed t t (first # rest)\<rparr> \<and>
         distinct (map fst (snd (custom_extract_text (Pdf (before @ first # rest))))) \<and>
         subseq (concat (map contribution (filter (detects t) (first # rest))))
           (routed t t (first # rest))"
proof -
  let ?st = "extract_loop before init_state"
  have secs: "snd (custom_extract_text (Pdf (before @ first # rest))) =
              sections (extract_loop rest (process_page first ?st))"
    by (simp add: custom_extract_text_Pdf extract_loop_append)
  have "map_of (sections init_state) t = None"
    by (simp add: init_state_def init_sections_def)
  then have "map_of (sections ?st) t = None"
    using assms(1) by (rule extract_loop_absent)
  then have f: "map_of (sections (process_page first ?st)) t =
                Some \<lparr>title = t, author_info = a, content = contribution first\<rparr>"
    using assms(2) by (rule process_page_first)
  have nt: "next_title cur first = t" for cur
    using assms(2) by (simp add: next_title_def)
  have 1: "map_of (sections (extract_loop rest (process_page first ?st))) t =
        Some \<lparr>title = t, author_info = a, content = routed t t (first # rest)\<rparr>"
    using extract_loop_present[OF f, of rest]
    by (simp add: current_title_process_page nt)
  have "distinct (map fst (sections init_state))"
    by (simp add: init_state_def init_sections_def)
  then have "distinct (map fst (sections (extract_loop (before @ first # rest) init_state)))"
    by (rule extract_loop_distinct)
  then have 2: "distinct (map fst (sections (extract_loop rest (process_page first ?st))))"
    by (simp add: extract_loop_append)
  have 3: "subseq (concat (map contribution (filter (detects t) (first # rest))))
             (routed t t (first # rest))"
    by (rule routed_detects)
  show ?thesis unfolding secs using 1 2 3 by (intro conjI)
qed

lemma detect_title_heading_a:
  "detect_title (text_page heading_a) = Some ([84], [20316, 32773, 21517, 97])"
proof -
  have "scan_author (Suc 0) [[84], [20316, 32773, 21517, 97]] =
        Some ([84], [20316, 32773, 21517, 97])"
    by (subst scan_author.simps) (simp add: author_marker_def strip_def isspace_def)
  then show ?thesis
    by (simp add: detect_title_def text_page_def detect_title_text_def heading_a_def
        strip_def isspace_def)
qed

lemma detect_title_heading_b:
  "detect_title (text_page heading_b) = Some ([84], [20316, 32773, 21517, 98])"
proof -
  have "scan_author (Suc 0) [[84], [20316, 32773, 21517, 98]] =
        Some ([84], [20316, 32773, 21517, 98])"
    by (subst scan_author.simps) (simp add: author_marker_def strip_def isspace_def)
  then show ?thesis
    by (simp add: detect_title_def text_page_def detect_title_text_def heading_b_def
        strip_def isspace_def)
qed

lemma page_text_heading_a:
  "page_text (text_page heading_a) = Inr (Some [84, 32, 20316, 32773, 21517, 97])"
  by (simp add: page_text_def text_page_def keyword_filter_def footer_keyword_def
      normalizer_def normalize_text_def strip_def isspace_def heading_a_def)

lemma page_text_heading_b:
  "page_text (text_page heading_b) = Inr (Some [84, 32, 20316, 32773, 21517, 98])"
  by (simp add: page_text_def text_page_def keyword_filter_def footer_keyword_def
      normalizer_def normalize_text_def strip_def isspace_def heading_b_def)

theorem repeated_title_one_section_witness:
  "detect_title (text_page heading_a) = Some ([84], [20316, 32773, 21517, 97]) \<and>
   \<not> detects [84] (text_page hello) \<and>
   map_of (snd (custom_extract_text
     (Pdf ([text_page hello] @ text_page heading_a # [text_page hello, text_page heading_b]))))
     [84] =
     Some \<lparr>title = [84], author_info = [20316, 32773, 21517, 97],
           content = [[84, 32, 20316, 32773, 21517, 97], hello,
                      [84, 32, 20316, 32773, 21517, 98]]\<rparr>"
proof -
  have n: "\<not> detects [84] (text_page hello)"
    by (simp add: detects_def detect_title_hello)
  then have b: "\<forall>page\<in>set [text_page hello]. \<not> detects [84] page" by simp
  have r: "routed [84] [84] (text_page heading_a # [text_page hello, text_page heading_b]) =
           [[84, 32, 20316, 32773, 21517, 97], hello, [84, 32, 20316, 32773, 21517, 98]]"
    by (simp add: next_title_def contribution_def detect_title_heading_a detect_title_hello
        detect_title_heading_b page_text_heading_a page_text_hello page_text_heading_b)
  from repeated_title_one_section[OF b detect_title_heading_a,
      of "[text_page hello, text_page heading_b]"]
  show ?thesis using n detect_title_heading_a by (simp only: r) simp
qed

section \<open>The segmented writer\<close>

lemma save_loop_skip:
  "content s = [] \<Longrightarrow>
   save_loop can_write output_dir (before @ (t, s) # after) written =
   save_loop can_write output_dir (before @ after) written"
proof (induction before arbitrary: written)
  case Nil
  then show ?case by simp
next
  case (Cons x before)
  obtain t' s' where x: "x = (t', s')" by (cases x)
  show ?case using Cons by (simp add: x Let_def)
qed

text \<open>
  Claim C5, as amended. For every section of the registry whose content sequence is empty
  (no page-text at all was appended to it), \<open>save_to_files\<close> produces no output file for
  that section: the files written and the result are those for the registry without it.
\<close>

theorem empty_content_no_file:
  assumes "content s = []"
  shows "save_to_files can_mkdir can_write output_dir (before @ (t, s) # after) =
         save_to_files can_mkdir can_write output_dir (before @ after)"
  using assms by (simp add: save_to_files_def save_loop_skip)

theorem empty_content_no_file_witness:
  "content \<lparr>title = [84], author_info = [97], content = []\<rparr> = [] \<and>
   save_to_files True (\<lambda>path. True) [111, 117, 116]
     ([([85], \<lparr>title = [85], author_info = [98], content = [hello]\<rparr>)] @
      ([84], \<lparr>title = [84], author_info = [97], content = []\<rparr>) # []) =
     (True, [([111, 117, 116, 47, 85, 46, 116, 120, 116], [85, 10, 98, 10, 10] @ hello)])"
proof -
  have c: "content \<lparr>title = [84], author_info = [97], content = []\<rparr> = []" by simp
  have "save_to_files True (\<lambda>path. True) [111, 117, 116]
          ([([85], \<lparr>title = [85], author_info = [98], content = [hello]\<rparr>)] @ []) =
        (True, [([111, 117, 116, 47, 85, 46, 116, 120, 116], [85, 10, 98, 10, 10] @ hello)])"
    by (simp add: save_to_files_def path_join_def safe_title_def file_body_def hello_def)
  then show ?thesis
    using empty_content_no_file[OF c, of True "\<lambda>path. True" "[111, 117, 116]"
        "[([85], \<lparr>title = [85], author_info = [98], content = [hello]\<rparr>)]" "[84]" "[]"]
    by simp
qed

text \<open>
  Claim C5 as stated (no file for a section to which no non-blank page-text was appended)
  fails. In \<open>blank_doc\<close> both lines of the heading page carry the footer keyword, so the
  page files nothing; the second page's text is one space, its normalized text is the
  empty string, and that is appended. The section's only page-text is blank, and its file
  is written.
\<close>

theorem blank_text_counterexample:
  "snd (custom_extract_text blank_doc) =
     [([84, 120, 120, 120],
       \<lparr>title = [84, 120, 120, 120], author_info = [20316, 32773, 21517, 120, 120, 120],
        content = [[]]\<rparr>)] \<and>
   save_to_files True (\<lambda>path. True) [111, 117, 116] (snd (custom_extract_text blank_doc)) =
     (True, [([111, 117, 116, 47, 84, 120, 120, 120, 46, 116, 120, 116],
              [84, 120, 120, 120, 10, 20316, 32773, 21517, 120, 120, 120, 10, 10])])"
  by (simp add: sections_blank_doc save_to_files_def path_join_def safe_title_def
      file_body_def)

end
